theory Spec2Isabelle
  imports Complex_Main "HOL-Library.Word"
begin

section \<open>JavaScript strings and numbers\<close>

text \<open>
  A JavaScript string is a sequence of UTF-16 code units; \<open>length\<close>, \<open>indexOf\<close> and
  \<open>substring\<close> all count code units. Numbers are IEEE doubles in the source; they are
  modelled as real numbers, with exact arithmetic and the usual order (no rounding, no NaN).
\<close>

type_synonym jsstring = "16 word list"

text \<open>An ASCII literal of the source, as code units.\<close>

definition utf16 :: "string \<Rightarrow> jsstring" where
  "utf16 s = map of_char s"

text \<open>
  \<open>StringIndexOf\<close> of ECMAScript, on the suffix that starts at index \<open>i\<close>: the first index
  \<open>j \<ge> i\<close> at which \<open>w\<close> occurs, and -1 when there is none. The empty string occurs at
  every index up to the length.
\<close>

fun StringIndexOf :: "jsstring \<Rightarrow> jsstring \<Rightarrow> nat \<Rightarrow> int" where
  "StringIndexOf [] w i = (if w = [] then int i else -1)"
| "StringIndexOf (c # cs) w i =
     (if take (length w) (c # cs) = w then int i else StringIndexOf cs w (Suc i))"

text \<open>\<open>s.indexOf(w, position)\<close>: the position is clamped to \<open>[0, s.length]\<close> first.\<close>

definition indexOf :: "jsstring \<Rightarrow> jsstring \<Rightarrow> int \<Rightarrow> int" where
  "indexOf s w position =
     (let start = nat (min (max position 0) (int (length s)))
      in StringIndexOf (drop start s) w start)"

text \<open>
  \<open>s.substring(a, b)\<close>: both indices are clamped to \<open>[0, s.length]\<close> and swapped when
  \<open>a > b\<close>. \<open>s.substring(a)\<close> runs to the end of the string.
\<close>

definition substring :: "jsstring \<Rightarrow> int \<Rightarrow> int \<Rightarrow> jsstring" where
  "substring s a b =
     (let finalStart = min (max a 0) (int (length s));
          finalEnd = min (max b 0) (int (length s));
          from = nat (min finalStart finalEnd);
          to = nat (max finalStart finalEnd)
      in take (to - from) (drop from s))"

definition substring_from :: "jsstring \<Rightarrow> int \<Rightarrow> jsstring" where
  "substring_from s a = substring s a (int (length s))"

text \<open>\<open>xs.findIndex(P)\<close>: the index of the first element that satisfies \<open>P\<close>, or -1.\<close>

fun findIndex_from :: "('a \<Rightarrow> bool) \<Rightarrow> 'a list \<Rightarrow> int \<Rightarrow> int" where
  "findIndex_from P [] k = -1"
| "findIndex_from P (x # xs) k = (if P x then k else findIndex_from P xs (k + 1))"

definition findIndex :: "('a \<Rightarrow> bool) \<Rightarrow> 'a list \<Rightarrow> int" where
  "findIndex P xs = findIndex_from P xs 0"

text \<open>
  \<open>for (const char of s)\<close> iterates over code points: a lead surrogate followed by a
  trail surrogate is one two-unit string, every other code unit is a string of its own.
\<close>

definition isLeadSurrogate :: "16 word \<Rightarrow> bool" where
  "isLeadSurrogate u \<longleftrightarrow> 0xD800 \<le> u \<and> u \<le> 0xDBFF"

definition isTrailSurrogate :: "16 word \<Rightarrow> bool" where
  "isTrailSurrogate u \<longleftrightarrow> 0xDC00 \<le> u \<and> u \<le> 0xDFFF"

fun string_iterator :: "jsstring \<Rightarrow> jsstring list" where
  "string_iterator [] = []"
| "string_iterator [u] = [[u]]"
| "string_iterator (u # v # us) =
     (if isLeadSurrogate u \<and> isTrailSurrogate v then [u, v] # string_iterator us
      else [u] # string_iterator (v # us))"

section \<open>Data model (types.ts)\<close>

record WordTiming =
  word :: jsstring
  start :: real
  end' :: real

text \<open>
  \<open>ViewElementWord\<close> extends \<open>WordTiming\<close> with \<open>originalIndex\<close>;
  \<open>ViewElementWhitespace\<close> carries its \<open>content\<close>.
\<close>

datatype ViewElement =
    ViewElementWord WordTiming int
  | ViewElementWhitespace jsstring

text \<open>What TextViewer.tsx renders for an element: the word, or the whitespace content.\<close>

fun element_text :: "ViewElement \<Rightarrow> jsstring" where
  "element_text (ViewElementWord t i) = word t"
| "element_text (ViewElementWhitespace c) = c"

section \<open>Reconciliation of timings with the transcript (handleSubmit)\<close>

text \<open>
  The body of the \<open>timings.forEach\<close> callback. The state is the pair of
  \<open>newViewElements\<close> and \<open>textCursor\<close>.
\<close>

definition reconcile_callback ::
  "jsstring \<Rightarrow> ViewElement list \<times> int \<Rightarrow> WordTiming \<Rightarrow> int \<Rightarrow> ViewElement list \<times> int" where
  "reconcile_callback textInput st timing index =
     (let newViewElements = fst st; textCursor = snd st;
          wordStartIndex = indexOf textInput (word timing) textCursor
      in if wordStartIndex = -1
         then (newViewElements @ [ViewElementWord timing index], textCursor)
         else
           let whitespaceContent = substring textInput textCursor wordStartIndex;
               pushed = (if whitespaceContent \<noteq> []
                         then newViewElements @ [ViewElementWhitespace whitespaceContent]
                         else newViewElements)
           in (pushed @ [ViewElementWord timing index],
               wordStartIndex + int (length (word timing))))"

text \<open>\<open>timings.forEach((timing, index) => ...)\<close>, from index \<open>index\<close> on.\<close>

fun reconcile_forEach ::
  "jsstring \<Rightarrow> WordTiming list \<Rightarrow> int \<Rightarrow> ViewElement list \<times> int \<Rightarrow> ViewElement list \<times> int" where
  "reconcile_forEach textInput [] index st = st"
| "reconcile_forEach textInput (timing # timings) index st =
     reconcile_forEach textInput timings (index + 1)
       (reconcile_callback textInput st timing index)"

text \<open>The trailing whitespace pushed after the loop.\<close>

definition push_remaining :: "jsstring \<Rightarrow> ViewElement list \<times> int \<Rightarrow> ViewElement list" where
  "push_remaining textInput st =
     (let remainingWhitespace = substring_from textInput (snd st)
      in if remainingWhitespace \<noteq> []
         then fst st @ [ViewElementWhitespace remainingWhitespace]
         else fst st)"

definition reconcile :: "jsstring \<Rightarrow> WordTiming list \<Rightarrow> ViewElement list" where
  "reconcile textInput timings =
     push_remaining textInput (reconcile_forEach textInput timings 0 ([], 0))"

text \<open>
  Every timing's word is found by the search of the callback, each search starting at
  the cursor the previous ones left.
\<close>

fun found_in_sequence :: "jsstring \<Rightarrow> WordTiming list \<Rightarrow> int \<Rightarrow> bool" where
  "found_in_sequence textInput [] textCursor = True"
| "found_in_sequence textInput (timing # timings) textCursor =
     (indexOf textInput (word timing) textCursor \<noteq> -1 \<and>
      found_in_sequence textInput timings
        (indexOf textInput (word timing) textCursor + int (length (word timing))))"

text \<open>
  The invariant of the loop while every word is found: the cursor is a position of
  the transcript, and the elements pushed so far spell the transcript up to it.
\<close>

definition reconcile_inv :: "jsstring \<Rightarrow> ViewElement list \<times> int \<Rightarrow> bool" where
  "reconcile_inv textInput st \<longleftrightarrow>
     0 \<le> snd st \<and> snd st \<le> int (length textInput) \<and>
     concat (map element_text (fst st)) = take (nat (snd st)) textInput"

text \<open>A timing with an ASCII word, for the examples.\<close>

definition mk_timing :: "string \<Rightarrow> real \<Rightarrow> real \<Rightarrow> WordTiming" where
  "mk_timing w s e = \<lparr>word = utf16 w, start = s, end' = e\<rparr>"

section \<open>React state and event handlers\<close>

text \<open>
  The component state that the handlers below read and set. A handler is modelled by
  the list of effects it performs, in the order of the source's statements; state
  setters act on the component state, the other effects on browser objects.
\<close>

record AppState =
  wordTimings :: "WordTiming list"
  isPlaying :: bool
  isExporting :: bool
  activeWordIndex :: int
  error :: "string option"

datatype RecorderState = inactive | recording

datatype effect =
    SetIsPlaying bool
  | SetIsExporting bool
  | SetActiveWordIndex int
  | SetError string
  | AudioPause
  | AudioPlay
  | AudioSetCurrentTime real
  | AddSeekedListener
  | AddEndedListener
  | RemoveEndedListener
  | SetupStreams
  | RecorderStart
  | RecorderStop
  | RequestAnimationFrame
  | CancelAnimationFrame
  | DownloadVideo
  | DisconnectAudioGraph
  | UncaughtError

fun apply_effect :: "AppState \<Rightarrow> effect \<Rightarrow> AppState" where
  "apply_effect s (SetIsPlaying b) = s\<lparr>isPlaying := b\<rparr>"
| "apply_effect s (SetIsExporting b) = s\<lparr>isExporting := b\<rparr>"
| "apply_effect s (SetActiveWordIndex i) = s\<lparr>activeWordIndex := i\<rparr>"
| "apply_effect s (SetError m) = s\<lparr>error := Some m\<rparr>"
| "apply_effect s _ = s"

definition run :: "effect list \<Rightarrow> AppState \<Rightarrow> AppState" where
  "run effects s = foldl apply_effect s effects"

text \<open>
  The timing that is active at a time: \<open>currentTime >= timing.start && currentTime <
  timing.end\<close>, looked up with \<open>findIndex\<close> (handleTimeUpdate and renderFrame).
\<close>

definition activeIndex :: "real \<Rightarrow> WordTiming list \<Rightarrow> int" where
  "activeIndex currentTime timings =
     findIndex (\<lambda>timing. currentTime \<ge> start timing \<and> currentTime < end' timing) timings"

text \<open>
  \<open>audioRef.current\<close> is \<open>None\<close> while no audio element is mounted; otherwise the
  handlers read its \<open>currentTime\<close>.
\<close>

definition handleTimeUpdate :: "real option \<Rightarrow> AppState \<Rightarrow> effect list" where
  "handleTimeUpdate audioRef s =
     (case audioRef of
        None \<Rightarrow> []
      | Some currentTime \<Rightarrow>
          let currentWordIndex = activeIndex currentTime (wordTimings s)
          in if currentWordIndex \<noteq> -1 then [SetActiveWordIndex currentWordIndex] else [])"

definition handlePlaybackEnd :: "effect list" where
  "handlePlaybackEnd = [SetIsPlaying False, SetActiveWordIndex (-1)]"

definition handleStop :: "real option \<Rightarrow> effect list" where
  "handleStop audioRef =
     (case audioRef of
        None \<Rightarrow> []
      | Some currentTime \<Rightarrow>
          [AudioPause, AudioSetCurrentTime 0, SetIsPlaying False, SetActiveWordIndex (-1)])"

section \<open>Canvas layout (exportProcess)\<close>

definition FONT_SIZE :: real where "FONT_SIZE = 48"
definition PADDING :: real where "PADDING = 60"
definition LINE_HEIGHT :: real where "LINE_HEIGHT = FONT_SIZE * 1.8"
definition CANVAS_WIDTH :: real where "CANVAS_WIDTH = 1920"
definition CANVAS_HEIGHT :: real where "CANVAS_HEIGHT = 1080"

record CanvasLayout =
  layout_word :: jsstring
  layout_x :: real
  layout_y :: real
  layout_width :: real
  layout_originalIndex :: int

text \<open>
  One character of a whitespace element. \<open>measureText\<close> is the canvas context's
  \<open>measureText(...).width\<close>; the state is \<open>(currentX, currentY)\<close>.
\<close>

definition layout_char :: "(jsstring \<Rightarrow> real) \<Rightarrow> real \<times> real \<Rightarrow> jsstring \<Rightarrow> real \<times> real" where
  "layout_char measureText pos char =
     (let currentX = fst pos; currentY = snd pos
      in if char = [0x0A]
         then (CANVAS_WIDTH - PADDING, currentY + LINE_HEIGHT)
         else
           let spaceWidth = measureText char
           in if currentX - spaceWidth < PADDING
              then (CANVAS_WIDTH - PADDING, currentY + LINE_HEIGHT)
              else (currentX - spaceWidth, currentY))"

text \<open>One view element; the state is \<open>(wordLayouts, (currentX, currentY))\<close>.\<close>

fun layout_element ::
  "(jsstring \<Rightarrow> real) \<Rightarrow> CanvasLayout list \<times> real \<times> real \<Rightarrow> ViewElement
     \<Rightarrow> CanvasLayout list \<times> real \<times> real" where
  "layout_element measureText (wordLayouts, currentX, currentY) (ViewElementWord t originalIndex) =
     (let width = measureText (word t);
          wrap = (currentX - width < PADDING);
          currentY1 = (if wrap then currentY + LINE_HEIGHT else currentY);
          currentX1 = (if wrap then CANVAS_WIDTH - PADDING else currentX)
      in (wordLayouts @
            [\<lparr>layout_word = word t, layout_x = currentX1, layout_y = currentY1,
              layout_width = width, layout_originalIndex = originalIndex\<rparr>],
          currentX1 - width, currentY1))"
| "layout_element measureText (wordLayouts, currentX, currentY) (ViewElementWhitespace content) =
     (wordLayouts, foldl (layout_char measureText) (currentX, currentY) (string_iterator content))"

definition layoutPass ::
  "(jsstring \<Rightarrow> real) \<Rightarrow> ViewElement list \<Rightarrow> CanvasLayout list \<times> real \<times> real" where
  "layoutPass measureText viewElements =
     foldl (layout_element measureText) ([], CANVAS_WIDTH - PADDING, PADDING + FONT_SIZE) viewElements"

definition totalTextHeight :: "CanvasLayout list \<Rightarrow> real" where
  "totalTextHeight wordLayouts =
     (if wordLayouts \<noteq> [] then Max (set (map layout_y wordLayouts)) else 0) + PADDING"

text \<open>
  The whitespace rule in the words of the specification: a character other than a
  newline wraps first if it would overflow, and then advances the cursor by its width.
\<close>

definition spec_layout_char :: "(jsstring \<Rightarrow> real) \<Rightarrow> real \<times> real \<Rightarrow> jsstring \<Rightarrow> real \<times> real" where
  "spec_layout_char measureText pos char =
     (let currentX = fst pos; currentY = snd pos
      in if char = [0x0A]
         then (CANVAS_WIDTH - PADDING, currentY + LINE_HEIGHT)
         else
           let spaceWidth = measureText char;
               wrap = (currentX - spaceWidth < PADDING);
               currentY1 = (if wrap then currentY + LINE_HEIGHT else currentY);
               currentX1 = (if wrap then CANVAS_WIDTH - PADDING else currentX)
           in (currentX1 - spaceWidth, currentY1))"

text \<open>Font metrics for the examples: every code unit is 12 pixels wide.\<close>

definition measure12 :: "jsstring \<Rightarrow> real" where
  "measure12 s = 12 * real (length s)"

section \<open>Scrolling in renderFrame\<close>

definition LERP_FACTOR :: real where "LERP_FACTOR = 0.08"

record ScrollState =
  currentScrollY :: real
  targetScrollY :: real

text \<open>The interpolation and the snap of one frame, for a given target.\<close>

definition smooth_step :: "real \<Rightarrow> real \<Rightarrow> real" where
  "smooth_step target current =
     (let current1 = current + (target - current) * LERP_FACTOR
      in if \<bar>target - current1\<bar> < 0.5 then target else current1)"

text \<open>
  The scroll part of \<open>renderFrame\<close>: \<open>currentTime\<close> is the audio element's time at the
  frame, \<open>height\<close> the \<open>totalTextHeight\<close> computed once by exportProcess.
\<close>

definition renderFrame_scroll ::
  "WordTiming list \<Rightarrow> CanvasLayout list \<Rightarrow> real \<Rightarrow> real \<Rightarrow> ScrollState \<Rightarrow> ScrollState" where
  "renderFrame_scroll timings wordLayouts height currentTime s =
     (let active = activeIndex currentTime timings
      in if height > CANVAS_HEIGHT
         then
           let activeLayout = find (\<lambda>l. layout_originalIndex l = active) wordLayouts;
               target1 = (case activeLayout of
                            Some l \<Rightarrow> layout_y l - CANVAS_HEIGHT / 2
                          | None \<Rightarrow> targetScrollY s);
               maxScrollTop = height - CANVAS_HEIGHT;
               target2 = max 0 (min target1 maxScrollTop)
           in \<lparr>currentScrollY = smooth_step target2 (currentScrollY s),
               targetScrollY = target2\<rparr>
         else s)"

section \<open>The export handlers (handleExportVideo)\<close>

text \<open>
  The browser as \<open>exportProcess\<close> meets it: \<open>canvas.getContext('2d')\<close> returns null;
  or it returns a context and one of the set-up calls that follow the layout
  (\<open>new AudioContext()\<close>, \<open>createMediaElementSource\<close>, \<open>captureStream\<close>,
  \<open>new MediaRecorder(...)\<close>) throws; or the set-up succeeds.
\<close>

datatype export_env = NoContext | SetupThrows | SetupOk

text \<open>
  \<open>exportProcess\<close>. Without a context the flag is cleared and the function returns.
  With a context, the layout is computed (no effect) and the streams and the recorder are
  set up; no statement catches an exception of these calls, so it leaves the function
  and nothing after it runs. Otherwise recording, playback and the frame loop are
  started.
\<close>

definition exportProcess :: "export_env \<Rightarrow> effect list" where
  "exportProcess env =
     (case env of
        NoContext \<Rightarrow> [SetIsExporting False]
      | SetupThrows \<Rightarrow> [UncaughtError]
      | SetupOk \<Rightarrow>
          [SetupStreams, AddEndedListener, RecorderStart, AudioPlay, RequestAnimationFrame])"

text \<open>
  \<open>handleExportVideo\<close>. When the audio is at time 0, \<open>exportProcess\<close> runs at once;
  otherwise it is registered for the \<open>seeked\<close> event and runs later, as a handler of
  its own.
\<close>

definition handleExportVideo :: "real option \<Rightarrow> export_env \<Rightarrow> AppState \<Rightarrow> effect list" where
  "handleExportVideo audioRef env s =
     (case audioRef of
        None \<Rightarrow> []
      | Some currentTime \<Rightarrow>
          if wordTimings s = [] \<or> isExporting s then []
          else [SetIsExporting True, AudioPause, SetIsPlaying False, SetActiveWordIndex (-1)] @
               (if currentTime = 0 then exportProcess env
                else [AddSeekedListener, AudioSetCurrentTime 0]))"

text \<open>\<open>recorder.onstop\<close>, which ends with \<open>handleStop()\<close>.\<close>

definition recorder_onstop :: "real option \<Rightarrow> effect list" where
  "recorder_onstop audioRef =
     [CancelAnimationFrame, DownloadVideo, SetIsExporting False, DisconnectAudioGraph] @
     handleStop audioRef"

text \<open>The handler of a rejected \<open>audioEl.play()\<close>.\<close>

definition play_catch :: "RecorderState \<Rightarrow> effect list" where
  "play_catch recorderState =
     (if recorderState = recording then [RecorderStop] else []) @
     [SetError ''Could not start audio playback for recording.'', SetIsExporting False]"

definition onAudioEnded :: "RecorderState \<Rightarrow> effect list" where
  "onAudioEnded recorderState =
     (if recorderState = recording then [RecorderStop] else []) @ [RemoveEndedListener]"

section \<open>The alignment call (geminiService.ts)\<close>

datatype json =
    JNull
  | JBool bool
  | JNumber real
  | JString jsstring
  | JArray "json list"
  | JObject "(jsstring \<times> json) list"

text \<open>
  What the code sees of the model's answer: the request is rejected, or the answer's
  text is not JSON (\<open>JSON.parse\<close> throws), or it parses to a value.
\<close>

datatype oracle_response = Rejected | Unparsable | Parsed json

datatype js_error = Error string | TypeError | SyntaxError | ApiError

text \<open>
  \<open>v.hasOwnProperty(k)\<close> on a parsed value. On \<open>null\<close> the property access throws; an
  object with an own key \<open>hasOwnProperty\<close> shadows the method with a value that is not
  callable; values other than objects have no such own property.
\<close>

fun hasOwnProperty :: "json \<Rightarrow> jsstring \<Rightarrow> js_error + bool" where
  "hasOwnProperty JNull k = Inl TypeError"
| "hasOwnProperty (JObject kvs) k =
     (if map_of kvs (utf16 ''hasOwnProperty'') \<noteq> None then Inl TypeError
      else Inr (map_of kvs k \<noteq> None))"
| "hasOwnProperty v k = Inr False"

text \<open>
  The three-way test on \<open>timings[0]\<close>, with the short-circuit order of the source:
  \<open>Inr True\<close> when a field is missing.
\<close>

definition missing_fields :: "json \<Rightarrow> js_error + bool" where
  "missing_fields t =
     (case hasOwnProperty t (utf16 ''word'') of
        Inl e \<Rightarrow> Inl e
      | Inr False \<Rightarrow> Inr True
      | Inr True \<Rightarrow>
          (case hasOwnProperty t (utf16 ''start'') of
             Inl e \<Rightarrow> Inl e
           | Inr False \<Rightarrow> Inr True
           | Inr True \<Rightarrow>
               (case hasOwnProperty t (utf16 ''end'') of
                  Inl e \<Rightarrow> Inl e
                | Inr b \<Rightarrow> Inr (\<not> b))))"

text \<open>The body of the \<open>try\<close> block, from the answer on.\<close>

definition generateWordTimings_try :: "oracle_response \<Rightarrow> js_error + json list" where
  "generateWordTimings_try response =
     (case response of
        Rejected \<Rightarrow> Inl ApiError
      | Unparsable \<Rightarrow> Inl SyntaxError
      | Parsed (JArray timings) \<Rightarrow>
          (case timings of
             [] \<Rightarrow> Inr timings
           | t # _ \<Rightarrow>
               (case missing_fields t of
                  Inl e \<Rightarrow> Inl e
                | Inr True \<Rightarrow>
                    Inl (Error ''API response is missing required fields in timing objects.'')
                | Inr False \<Rightarrow> Inr timings))
      | Parsed _ \<Rightarrow> Inl (Error ''API did not return a valid array for timings.''))"

text \<open>The \<open>catch\<close> block replaces every error by one.\<close>

definition generateWordTimings :: "oracle_response \<Rightarrow> js_error + json list" where
  "generateWordTimings response =
     (case generateWordTimings_try response of
        Inl e \<Rightarrow> Inl (Error ''Failed to generate word timings from Gemini API.'')
      | Inr timings \<Rightarrow> Inr timings)"

text \<open>A timing object with all three fields, as the answer's schema asks for.\<close>

definition timing_json :: "jsstring \<Rightarrow> real \<Rightarrow> real \<Rightarrow> json" where
  "timing_json w s e =
     JObject [(utf16 ''word'', JString w), (utf16 ''start'', JNumber s), (utf16 ''end'', JNumber e)]"

section \<open>States and inputs of the examples\<close>

definition playing_state :: AppState where
  "playing_state =
     \<lparr>wordTimings = [mk_timing ''a'' 0 1, mk_timing ''b'' 2 3], isPlaying = True,
      isExporting = False, activeWordIndex = -1, error = None\<rparr>"

text \<open>The state after a time update at 0.5 s, inside the first word.\<close>

definition after_first_word :: AppState where
  "after_first_word = run (handleTimeUpdate (Some 0.5) playing_state) playing_state"

definition tall_layout :: "CanvasLayout list" where
  "tall_layout =
     [\<lparr>layout_word = utf16 ''a'', layout_x = 1860, layout_y = 2008.8, layout_width = 12,
       layout_originalIndex = 0\<rparr>]"

definition idle_state :: AppState where
  "idle_state =
     \<lparr>wordTimings = [mk_timing ''a'' 0 1], isPlaying = False,
      isExporting = False, activeWordIndex = -1, error = None\<rparr>"

text \<open>
  The state after a start-export request that passed the guard and whose set-up threw.
\<close>

definition stuck_state :: AppState where
  "stuck_state = run (handleExportVideo (Some 0) SetupThrows idle_state) idle_state"

text \<open>The one error that \<open>generateWordTimings\<close> throws.\<close>

abbreviation (input) GENERIC :: js_error where
  "GENERIC \<equiv> Error ''Failed to generate word timings from Gemini API.''"

section \<open>Properties of the string operations\<close>

lemma StringIndexOf_found:
  "StringIndexOf s w i \<noteq> -1 \<Longrightarrow>
     \<exists>k. StringIndexOf s w i = int (i + k) \<and> k + length w \<le> length s \<and>
         take (length w) (drop k s) = w"
proof (induction s arbitrary: i)
  case Nil
  then show ?case by (auto split: if_splits)
next
  case (Cons c cs)
  show ?case
  proof (cases "take (length w) (c # cs) = w")
    case True
    then have "length (take (length w) (c # cs)) = length w" by simp
    then have "length w \<le> length (c # cs)" by simp
    with True show ?thesis by (intro exI[of _ 0]) simp
  next
    case False
    with Cons.prems have "StringIndexOf cs w (Suc i) \<noteq> -1" by simp
    from Cons.IH[OF this] obtain k where
      k: "StringIndexOf cs w (Suc i) = int (Suc i + k)" "k + length w \<le> length cs"
         "take (length w) (drop k cs) = w" by blast
    with False show ?thesis by (intro exI[of _ "Suc k"]) simp
  qed
qed

lemma indexOf_found:
  assumes "indexOf s w c \<noteq> -1" "0 \<le> c" "c \<le> int (length s)"
  shows "c \<le> indexOf s w c"
    and "indexOf s w c + int (length w) \<le> int (length s)"
    and "take (length w) (drop (nat (indexOf s w c)) s) = w"
proof -
  have st: "nat (min (max c 0) (int (length s))) = nat c" using assms by simp
  have ne: "StringIndexOf (drop (nat c) s) w (nat c) \<noteq> -1"
    using assms(1) by (simp add: indexOf_def st Let_def)
  from StringIndexOf_found[OF ne] obtain k where
    k: "StringIndexOf (drop (nat c) s) w (nat c) = int (nat c + k)"
       "k + length w \<le> length (drop (nat c) s)"
       "take (length w) (drop k (drop (nat c) s)) = w" by blast
  have eq: "indexOf s w c = int (nat c + k)" using k(1) by (simp add: indexOf_def st Let_def)
  show "c \<le> indexOf s w c" using eq assms(2) by simp
  show "indexOf s w c + int (length w) \<le> int (length s)" using eq k(2) assms by simp
  have "nat (indexOf s w c) = nat c + k" unfolding eq by (rule nat_int)
  then show "take (length w) (drop (nat (indexOf s w c)) s) = w"
    using k(3) by (simp add: add.commute)
qed

lemma substring_between:
  "0 \<le> a \<Longrightarrow> a \<le> b \<Longrightarrow> b \<le> int (length s) \<Longrightarrow>
     substring s a b = take (nat b - nat a) (drop (nat a) s)"
  by (simp add: substring_def Let_def min_def max_def)

lemma substring_from_drop:
  "0 \<le> a \<Longrightarrow> a \<le> int (length s) \<Longrightarrow> substring_from s a = drop (nat a) s"
  by (simp add: substring_from_def substring_def Let_def min_def max_def)

lemma take_extend:
  "a \<le> b \<Longrightarrow> take a s @ take (b - a) (drop a s) = take b s"
  by (metis le_add_diff_inverse take_add)

section \<open>Reconciliation\<close>

lemma reconcile_callback_found:
  assumes inv: "reconcile_inv textInput st"
    and found: "indexOf textInput (word timing) (snd st) \<noteq> -1"
  shows "reconcile_inv textInput (reconcile_callback textInput st timing index)"
    and "snd (reconcile_callback textInput st timing index) =
           indexOf textInput (word timing) (snd st) + int (length (word timing))"
proof -
  let ?c = "snd st" and ?p = "indexOf textInput (word timing) (snd st)"
  have c: "0 \<le> ?c" "?c \<le> int (length textInput)"
    and cat: "concat (map element_text (fst st)) = take (nat ?c) textInput"
    using inv by (simp_all add: reconcile_inv_def)
  note f = indexOf_found[OF found c]
  have sub: "substring textInput ?c ?p = take (nat ?p - nat ?c) (drop (nat ?c) textInput)"
    using substring_between[of ?c ?p textInput] c f by simp
  have le: "nat ?c \<le> nat ?p" using f(1) c by simp
  have upto: "take (nat ?c) textInput @ substring textInput ?c ?p = take (nat ?p) textInput"
    unfolding sub by (rule take_extend[OF le])
  have wd: "take (nat ?p) textInput @ word timing
              = take (nat (?p + int (length (word timing)))) textInput"
  proof -
    have "take (nat ?p + length (word timing)) textInput
            = take (nat ?p) textInput @ take (length (word timing)) (drop (nat ?p) textInput)"
      by (simp add: take_add)
    moreover have "nat (?p + int (length (word timing))) = nat ?p + length (word timing)"
      using f(1) c by (simp add: nat_add_distrib)
    ultimately show ?thesis using f(3) by simp
  qed
  show "snd (reconcile_callback textInput st timing index)
          = ?p + int (length (word timing))"
    using found by (simp add: reconcile_callback_def Let_def)
  have "concat (map element_text (fst (reconcile_callback textInput st timing index)))
          = take (nat ?c) textInput @ substring textInput ?c ?p @ word timing"
    using found cat by (simp add: reconcile_callback_def Let_def)
  also have "\<dots> = take (nat (?p + int (length (word timing)))) textInput"
    using upto wd by (metis append.assoc)
  finally have cat': "concat (map element_text (fst (reconcile_callback textInput st timing index)))
          = take (nat (?p + int (length (word timing)))) textInput" .
  have "0 \<le> ?p + int (length (word timing))" using f(1) c by simp
  then show "reconcile_inv textInput (reconcile_callback textInput st timing index)"
    using f(2) cat' found
    by (simp add: reconcile_inv_def reconcile_callback_def Let_def)
qed

lemma reconcile_forEach_inv:
  "found_in_sequence textInput timings (snd st) \<Longrightarrow> reconcile_inv textInput st \<Longrightarrow>
     reconcile_inv textInput (reconcile_forEach textInput timings index st)"
proof (induction timings arbitrary: index st)
  case Nil
  then show ?case by simp
next
  case (Cons t ts)
  from Cons.prems have found: "indexOf textInput (word t) (snd st) \<noteq> -1" by simp
  note cb = reconcile_callback_found[OF Cons.prems(2) found, of index]
  have "found_in_sequence textInput ts (snd (reconcile_callback textInput st t index))"
    using Cons.prems(1) cb(2) by simp
  from Cons.IH[OF this cb(1)] show ?case by simp
qed

lemma push_remaining_text:
  assumes "reconcile_inv textInput st"
  shows "concat (map element_text (push_remaining textInput st)) = textInput"
proof -
  have c: "0 \<le> snd st" "snd st \<le> int (length textInput)"
    and cat: "concat (map element_text (fst st)) = take (nat (snd st)) textInput"
    using assms by (simp_all add: reconcile_inv_def)
  have "substring_from textInput (snd st) = drop (nat (snd st)) textInput"
    using substring_from_drop c by simp
  then show ?thesis using cat by (simp add: push_remaining_def Let_def)
qed

lemma reconcile_forEach_append:
  "reconcile_forEach textInput (xs @ ys) index st =
     reconcile_forEach textInput ys (index + int (length xs))
       (reconcile_forEach textInput xs index st)"
  by (induction xs arbitrary: index st) (simp_all add: add.assoc)

text \<open>
  Claim C1. When every timing's word is found by the in-order search at or after the
  running cursor, the texts of the reconciled view elements (the word of a word element,
  the content of a whitespace element), concatenated in order, are the transcript.
\<close>

theorem reconcile_round_trip:
  "found_in_sequence textInput timings 0 \<Longrightarrow>
     concat (map element_text (reconcile textInput timings)) = textInput"
  unfolding reconcile_def
  by (rule push_remaining_text, rule reconcile_forEach_inv) (simp_all add: reconcile_inv_def)

theorem reconcile_round_trip_witness:
  "found_in_sequence (utf16 ''the the'') [mk_timing ''the'' 0 1, mk_timing ''the'' 1 2] 0 \<and>
   concat (map element_text
     (reconcile (utf16 ''the the'') [mk_timing ''the'' 0 1, mk_timing ''the'' 1 2])) =
     utf16 ''the the''"
proof -
  have h: "found_in_sequence (utf16 ''the the'') [mk_timing ''the'' 0 1, mk_timing ''the'' 1 2] 0"
    by (simp add: utf16_def mk_timing_def indexOf_def)
  show ?thesis using h reconcile_round_trip[OF h] by simp
qed

text \<open>
  Claim C4. When the word of the timing at position \<open>k\<close> is not found at or after the
  cursor that the first \<open>k\<close> timings left, the loop pushes exactly one element for it,
  the word element with \<open>originalIndex = k\<close> and no whitespace element before it,
  leaves the cursor as it was, and goes on with the timings after it.
\<close>

theorem word_not_found_degrades:
  assumes k: "k < length timings"
    and nf: "indexOf textInput (word (timings ! k))
               (snd (reconcile_forEach textInput (take k timings) 0 ([], 0))) = -1"
  shows "reconcile_forEach textInput (take (Suc k) timings) 0 ([], 0) =
           (fst (reconcile_forEach textInput (take k timings) 0 ([], 0)) @
              [ViewElementWord (timings ! k) (int k)],
            snd (reconcile_forEach textInput (take k timings) 0 ([], 0))) \<and>
         reconcile textInput timings =
           push_remaining textInput
             (reconcile_forEach textInput (drop (Suc k) timings) (int k + 1)
                (fst (reconcile_forEach textInput (take k timings) 0 ([], 0)) @
                   [ViewElementWord (timings ! k) (int k)],
                 snd (reconcile_forEach textInput (take k timings) 0 ([], 0))))"
proof -
  let ?st = "reconcile_forEach textInput (take k timings) 0 ([], 0)"
  have len: "length (take k timings) = k" using k by simp
  have cb: "reconcile_callback textInput ?st (timings ! k) (int k) =
              (fst ?st @ [ViewElementWord (timings ! k) (int k)], snd ?st)"
    using nf by (simp add: reconcile_callback_def Let_def)
  have one: "reconcile_forEach textInput (take (Suc k) timings) 0 ([], 0) =
               (fst ?st @ [ViewElementWord (timings ! k) (int k)], snd ?st)"
    using k cb len
    by (simp add: take_Suc_conv_app_nth reconcile_forEach_append)
  have "timings = take (Suc k) timings @ drop (Suc k) timings" by simp
  then have "reconcile_forEach textInput timings 0 ([], 0) =
               reconcile_forEach textInput (drop (Suc k) timings) (0 + int (length (take (Suc k) timings)))
                 (reconcile_forEach textInput (take (Suc k) timings) 0 ([], 0))"
    using reconcile_forEach_append[of textInput "take (Suc k) timings" "drop (Suc k) timings" 0 "([], 0)"]
    by simp
  moreover have "length (take (Suc k) timings) = Suc k" using k by simp
  ultimately have two: "reconcile_forEach textInput timings 0 ([], 0) =
               reconcile_forEach textInput (drop (Suc k) timings) (int k + 1)
                 (fst ?st @ [ViewElementWord (timings ! k) (int k)], snd ?st)"
    using one by (simp add: add.commute)
  show ?thesis using one two by (simp add: reconcile_def)
qed

theorem word_not_found_degrades_witness:
  "(1::nat) < length [mk_timing ''a'' 0 1, mk_timing ''x'' 1 2, mk_timing ''c'' 2 3] \<and>
   reconcile (utf16 ''a b c'') [mk_timing ''a'' 0 1, mk_timing ''x'' 1 2, mk_timing ''c'' 2 3] =
     [ViewElementWord (mk_timing ''a'' 0 1) 0, ViewElementWord (mk_timing ''x'' 1 2) 1,
      ViewElementWhitespace (utf16 '' b ''), ViewElementWord (mk_timing ''c'' 2 3) 2]"
proof -
  have k: "(1::nat) < length [mk_timing ''a'' 0 1, mk_timing ''x'' 1 2, mk_timing ''c'' 2 3]" by simp
  have nf: "indexOf (utf16 ''a b c'') (word ([mk_timing ''a'' 0 1, mk_timing ''x'' 1 2, mk_timing ''c'' 2 3] ! 1))
               (snd (reconcile_forEach (utf16 ''a b c'') (take 1 [mk_timing ''a'' 0 1, mk_timing ''x'' 1 2, mk_timing ''c'' 2 3]) 0 ([], 0))) = -1"
    by (simp add: utf16_def mk_timing_def indexOf_def reconcile_callback_def substring_def)
  show ?thesis
    using k word_not_found_degrades[OF k nf]
    by (simp add: utf16_def mk_timing_def indexOf_def reconcile_callback_def substring_def
        substring_from_def push_remaining_def)
qed

text \<open>
  Claim C5. A found word moves the cursor past its occurrence, and the search for the
  next timing starts there, so it cannot bind to that occurrence again: with the
  transcript "the the" and two timings for "the", the second word element follows the
  space, at the second occurrence.
\<close>

theorem duplicate_words_bind_successively:
  assumes "0 \<le> textCursor" "textCursor \<le> int (length textInput)"
    and "indexOf textInput (word t1) textCursor \<noteq> -1"
    and "indexOf textInput (word t2)
           (indexOf textInput (word t1) textCursor + int (length (word t1))) \<noteq> -1"
  shows "snd (reconcile_callback textInput (els, textCursor) t1 i) =
           indexOf textInput (word t1) textCursor + int (length (word t1)) \<and>
         indexOf textInput (word t1) textCursor + int (length (word t1)) \<le>
           indexOf textInput (word t2) (snd (reconcile_callback textInput (els, textCursor) t1 i)) \<and>
         reconcile (utf16 ''the the'') [mk_timing ''the'' 0 1, mk_timing ''the'' 1 2] =
           [ViewElementWord (mk_timing ''the'' 0 1) 0, ViewElementWhitespace (utf16 '' ''),
            ViewElementWord (mk_timing ''the'' 1 2) 1]"
proof -
  let ?p = "indexOf textInput (word t1) textCursor"
  note f = indexOf_found[OF assms(3) assms(1) assms(2)]
  have c: "snd (reconcile_callback textInput (els, textCursor) t1 i) = ?p + int (length (word t1))"
    using assms(3) by (simp add: reconcile_callback_def Let_def)
  have "0 \<le> ?p + int (length (word t1))" using f(1) assms(1) by simp
  from indexOf_found(1)[OF assms(4) this f(2)]
  have "?p + int (length (word t1)) \<le> indexOf textInput (word t2) (?p + int (length (word t1)))" .
  moreover have "reconcile (utf16 ''the the'') [mk_timing ''the'' 0 1, mk_timing ''the'' 1 2] =
           [ViewElementWord (mk_timing ''the'' 0 1) 0, ViewElementWhitespace (utf16 '' ''),
            ViewElementWord (mk_timing ''the'' 1 2) 1]"
    by (simp add: utf16_def mk_timing_def indexOf_def reconcile_def reconcile_callback_def
        push_remaining_def substring_def substring_from_def)
  ultimately show ?thesis using c by simp
qed

theorem duplicate_words_bind_successively_witness:
  "indexOf (utf16 ''the the'') (word (mk_timing ''the'' 0 1)) 0 = 0 \<and>
   snd (reconcile_callback (utf16 ''the the'') ([], 0) (mk_timing ''the'' 0 1) 0) = 3 \<and>
   indexOf (utf16 ''the the'') (word (mk_timing ''the'' 1 2)) 3 = 4"
proof -
  have a: "(0::int) \<le> 0" "(0::int) \<le> int (length (utf16 ''the the''))" by simp_all
  have b: "indexOf (utf16 ''the the'') (word (mk_timing ''the'' 0 1)) 0 \<noteq> -1"
    by (simp add: utf16_def mk_timing_def indexOf_def)
  have c: "indexOf (utf16 ''the the'') (word (mk_timing ''the'' 1 2))
           (indexOf (utf16 ''the the'') (word (mk_timing ''the'' 0 1)) 0 + int (length (word (mk_timing ''the'' 0 1)))) \<noteq> -1"
    by (simp add: utf16_def mk_timing_def indexOf_def)
  show ?thesis
    using duplicate_words_bind_successively[OF a b c, of "[]" 0]
    by (simp add: utf16_def mk_timing_def indexOf_def)
qed

text \<open>
  Claim C10. An empty array from the model is returned as an empty timing list, and
  reconciliation with no timings gives one whitespace element holding the whole
  transcript, or no element when the transcript is empty.
\<close>

theorem empty_timing_list_accepted:
  "generateWordTimings (Parsed (JArray [])) = Inr [] \<and>
   reconcile textInput [] = (if textInput = [] then [] else [ViewElementWhitespace textInput])"
  by (simp add: generateWordTimings_def generateWordTimings_try_def reconcile_def
      push_remaining_def substring_from_def substring_def)

section \<open>The active word\<close>

lemma findIndex_from_none:
  "findIndex_from P xs k = -1 \<longleftrightarrow> (\<forall>x\<in>set xs. \<not> P x)" if "0 \<le> k"
  using that
proof (induction xs arbitrary: k)
  case Nil
  then show ?case by simp
next
  case (Cons x xs)
  from Cons.prems have "0 \<le> k + 1" by simp
  from Cons.IH[OF this] Cons.prems show ?case by auto
qed

lemma activeIndex_none:
  "activeIndex currentTime timings = -1 \<longleftrightarrow>
     (\<forall>t\<in>set timings. \<not> (start t \<le> currentTime \<and> currentTime < end' t))"
  unfolding activeIndex_def findIndex_def by (rule findIndex_from_none) simp

text \<open>
  Claim C2, as the code has it. When no timing interval contains the playback time, a
  time update leaves the state as it is: the tracked active word keeps its previous
  value, so a word stays active in the gap after it.
\<close>

theorem gap_keeps_previous_word:
  assumes "\<forall>t\<in>set (wordTimings s). \<not> (start t \<le> currentTime \<and> currentTime < end' t)"
  shows "run (handleTimeUpdate (Some currentTime) s) s = s"
proof -
  have "activeIndex currentTime (wordTimings s) = -1"
    using assms by (simp add: activeIndex_none)
  then show ?thesis by (simp add: handleTimeUpdate_def run_def)
qed

theorem gap_keeps_previous_word_witness:
  "activeWordIndex after_first_word = 0 \<and>
   run (handleTimeUpdate (Some 1.5) after_first_word) after_first_word = after_first_word"
proof -
  have h: "\<forall>t\<in>set (wordTimings after_first_word). \<not> (start t \<le> 1.5 \<and> 1.5 < end' t)"
    by (simp add: after_first_word_def playing_state_def handleTimeUpdate_def run_def
        activeIndex_def findIndex_def mk_timing_def)
  have i: "activeWordIndex after_first_word = 0"
    by (simp add: after_first_word_def playing_state_def handleTimeUpdate_def run_def
        activeIndex_def findIndex_def mk_timing_def)
  show ?thesis using i gap_keeps_previous_word[OF h] by simp
qed

text \<open>
  The claim as stated fails: after an update inside the first word, an update at 1.5 s,
  in the gap between the two words, finds no timing and the tracked index is still 0.
\<close>

theorem gap_active_word_counterexample:
  "activeIndex 1.5 (wordTimings after_first_word) = -1 \<and>
   activeWordIndex (run (handleTimeUpdate (Some 1.5) after_first_word) after_first_word) = 0"
  by (simp add: after_first_word_def playing_state_def handleTimeUpdate_def run_def
      activeIndex_def findIndex_def mk_timing_def)

text \<open>
  Claim C3. For a timing with \<open>start \<le> end\<close>, the lookup over the one-element list
  returns index 0 exactly for the times in \<open>[start, end)\<close>, and -1 otherwise; at
  \<open>time = end\<close> it returns -1.
\<close>

theorem single_timing_half_open:
  assumes "start t \<le> end' t"
  shows "(activeIndex time [t] = 0 \<longleftrightarrow> start t \<le> time \<and> time < end' t) \<and>
         (activeIndex time [t] = -1 \<longleftrightarrow> \<not> (start t \<le> time \<and> time < end' t)) \<and>
         activeIndex (end' t) [t] = -1"
  by (simp add: activeIndex_def findIndex_def)

theorem single_timing_half_open_witness:
  "start (mk_timing ''a'' 0 1) \<le> end' (mk_timing ''a'' 0 1) \<and>
   activeIndex 0.5 [mk_timing ''a'' 0 1] = 0 \<and>
   activeIndex 1 [mk_timing ''a'' 0 1] = -1"
  using single_timing_half_open[of "mk_timing ''a'' 0 1" "0.5"]
  by (simp add: mk_timing_def)

section \<open>Scrolling\<close>

lemma smooth_step_alt:
  "smooth_step target current =
     (if \<bar>(target - current) * (1 - LERP_FACTOR)\<bar> < 0.5 then target
      else target - (target - current) * (1 - LERP_FACTOR))"
proof -
  have "target - (current + (target - current) * LERP_FACTOR)
          = (target - current) * (1 - LERP_FACTOR)"
    by (simp add: algebra_simps)
  moreover have "current + (target - current) * LERP_FACTOR
          = target - (target - current) * (1 - LERP_FACTOR)"
    by (simp add: algebra_simps)
  ultimately show ?thesis by (simp add: smooth_step_def Let_def)
qed

lemma smooth_step_fixed: "smooth_step target target = target"
  by (simp add: smooth_step_alt)

lemma smooth_step_funpow_fixed: "(smooth_step target ^^ n) target = target"
  by (induction n) (simp_all add: smooth_step_fixed)

lemma smooth_step_funpow:
  "(smooth_step target ^^ n) current = target \<or>
   target - (smooth_step target ^^ n) current = (target - current) * (1 - LERP_FACTOR) ^ n"
proof (induction n)
  case 0
  then show ?case by simp
next
  case (Suc n)
  then show ?case
  proof
    assume "(smooth_step target ^^ n) current = target"
    then show ?thesis by (simp add: smooth_step_fixed)
  next
    assume d: "target - (smooth_step target ^^ n) current
                 = (target - current) * (1 - LERP_FACTOR) ^ n"
    show ?thesis
      by (simp add: smooth_step_alt[of target "(smooth_step target ^^ n) current"] d)
  qed
qed

lemma smooth_step_reaches: "\<exists>n. (smooth_step target ^^ n) current = target"
proof -
  define r :: real where "r = 1 - LERP_FACTOR"
  define d :: real where "d = \<bar>target - current\<bar> + 1"
  have r: "0 \<le> r" "r < 1" "r \<le> 1" by (simp_all add: r_def LERP_FACTOR_def)
  have d: "0 < d" "\<bar>target - current\<bar> \<le> d" by (simp_all add: d_def)
  have "0 < (1 / 2) / d" using d(1) by simp
  from real_arch_pow_inv[OF this r(2)] obtain n :: nat
    where n: "r ^ n < (1 / 2) / d" by auto
  have rn: "0 \<le> r ^ n" using r(1) by simp
  have "r ^ n * d < 1 / 2" using n d(1) pos_less_divide_eq[of d "r ^ n" "1 / 2"] by blast
  moreover have "r ^ n * \<bar>target - current\<bar> \<le> r ^ n * d"
    using d(2) rn by (rule mult_left_mono)
  ultimately have small: "\<bar>target - current\<bar> * r ^ n < 1 / 2" by (simp add: mult.commute)
  let ?c = "(smooth_step target ^^ n) current"
  from smooth_step_funpow[where target=target and n=n and current=current] have "smooth_step target ?c = target"
  proof
    assume "?c = target"
    then show ?thesis by (simp add: smooth_step_fixed)
  next
    assume e: "target - ?c = (target - current) * (1 - LERP_FACTOR) ^ n"
    have "\<bar>(target - ?c) * r\<bar> = (\<bar>target - current\<bar> * r ^ n) * r"
      unfolding e using r(1) by (simp add: abs_mult r_def)
    also have "\<dots> \<le> \<bar>target - current\<bar> * r ^ n"
      using r(1,3) rn by (intro mult_right_le_one_le) simp_all
    finally have "\<bar>(target - ?c) * (1 - LERP_FACTOR)\<bar> < 0.5" using small by (simp add: r_def)
    then show ?thesis by (simp add: smooth_step_alt[of target ?c])
  qed
  then have "(smooth_step target ^^ Suc n) current = target" by simp
  then show ?thesis by blast
qed

lemma smooth_step_converges:
  "\<exists>n. \<forall>m\<ge>n. (smooth_step target ^^ m) current = target"
proof -
  from smooth_step_reaches obtain n where n: "(smooth_step target ^^ n) current = target"
    by blast
  have "(smooth_step target ^^ m) current = target" if "n \<le> m" for m
  proof -
    from that obtain k where "m = k + n" by (metis le_add_diff_inverse2)
    then show ?thesis by (simp add: funpow_add n smooth_step_funpow_fixed)
  qed
  then show ?thesis by blast
qed

lemma renderFrame_scroll_again:
  assumes "height > CANVAS_HEIGHT"
  shows "renderFrame_scroll timings wordLayouts height currentTime
           \<lparr>currentScrollY = c,
            targetScrollY = targetScrollY (renderFrame_scroll timings wordLayouts height currentTime s)\<rparr>
         = \<lparr>currentScrollY =
              smooth_step (targetScrollY (renderFrame_scroll timings wordLayouts height currentTime s)) c,
            targetScrollY = targetScrollY (renderFrame_scroll timings wordLayouts height currentTime s)\<rparr>"
  using assms by (simp add: renderFrame_scroll_def Let_def split: option.splits)

lemma renderFrame_scroll_funpow:
  assumes "height > CANVAS_HEIGHT"
  shows "(renderFrame_scroll timings wordLayouts height currentTime ^^ Suc n) s =
           \<lparr>currentScrollY =
              (smooth_step (targetScrollY (renderFrame_scroll timings wordLayouts height currentTime s))
                 ^^ Suc n) (currentScrollY s),
            targetScrollY = targetScrollY (renderFrame_scroll timings wordLayouts height currentTime s)\<rparr>"
proof (induction n)
  case 0
  show ?case using assms by (simp add: renderFrame_scroll_def Let_def)
next
  case (Suc n)
  show ?case
    using renderFrame_scroll_again[OF assms] Suc.IH by simp
qed

lemma renderFrame_scroll_settles:
  assumes "height > CANVAS_HEIGHT"
  shows "\<exists>n. \<forall>m\<ge>n.
           (renderFrame_scroll timings wordLayouts height currentTime ^^ m) s =
             \<lparr>currentScrollY = targetScrollY (renderFrame_scroll timings wordLayouts height currentTime s),
              targetScrollY = targetScrollY (renderFrame_scroll timings wordLayouts height currentTime s)\<rparr>"
proof -
  let ?T = "targetScrollY (renderFrame_scroll timings wordLayouts height currentTime s)"
  from smooth_step_converges[of ?T "currentScrollY s"] obtain n
    where n: "\<forall>m\<ge>n. (smooth_step ?T ^^ m) (currentScrollY s) = ?T" by blast
  have "(renderFrame_scroll timings wordLayouts height currentTime ^^ m) s =
          \<lparr>currentScrollY = ?T, targetScrollY = ?T\<rparr>" if "Suc n \<le> m" for m
  proof -
    from that obtain k where m: "m = Suc k" by (cases m) auto
    with that have "n \<le> Suc k" by simp
    with n have "(smooth_step ?T ^^ Suc k) (currentScrollY s) = ?T" by blast
    then show ?thesis unfolding m renderFrame_scroll_funpow[OF assms] by simp
  qed
  then show ?thesis by blast
qed

text \<open>
  Claim C6. When the text is taller than the canvas and a layout has the active index,
  the target of the frame is that word's y minus half the canvas height, clamped to
  \<open>[0, totalTextHeight - canvasHeight]\<close>, and the frame moves the current offset by one
  smoothing step towards it. For every target and every starting offset, the smoothing
  step reaches the target exactly after finitely many applications and stays there; so
  do the frames themselves at a fixed playback time.
\<close>

theorem scroll_target_clamped_and_reached:
  assumes "height > CANVAS_HEIGHT"
    and "find (\<lambda>l. layout_originalIndex l = activeIndex currentTime timings) wordLayouts = Some l"
  shows "targetScrollY (renderFrame_scroll timings wordLayouts height currentTime s) =
           max 0 (min (layout_y l - CANVAS_HEIGHT / 2) (height - CANVAS_HEIGHT)) \<and>
         0 \<le> targetScrollY (renderFrame_scroll timings wordLayouts height currentTime s) \<and>
         targetScrollY (renderFrame_scroll timings wordLayouts height currentTime s)
           \<le> height - CANVAS_HEIGHT \<and>
         currentScrollY (renderFrame_scroll timings wordLayouts height currentTime s) =
           smooth_step (targetScrollY (renderFrame_scroll timings wordLayouts height currentTime s))
             (currentScrollY s) \<and>
         (\<exists>n. \<forall>m\<ge>n. (smooth_step target ^^ m) current = target) \<and>
         (\<exists>n. \<forall>m\<ge>n.
            (renderFrame_scroll timings wordLayouts height currentTime ^^ m) s =
              \<lparr>currentScrollY =
                 max 0 (min (layout_y l - CANVAS_HEIGHT / 2) (height - CANVAS_HEIGHT)),
               targetScrollY =
                 max 0 (min (layout_y l - CANVAS_HEIGHT / 2) (height - CANVAS_HEIGHT))\<rparr>)"
proof -
  have t: "targetScrollY (renderFrame_scroll timings wordLayouts height currentTime s) =
             max 0 (min (layout_y l - CANVAS_HEIGHT / 2) (height - CANVAS_HEIGHT))"
    using assms by (simp add: renderFrame_scroll_def Let_def)
  have c: "currentScrollY (renderFrame_scroll timings wordLayouts height currentTime s) =
             smooth_step (targetScrollY (renderFrame_scroll timings wordLayouts height currentTime s))
               (currentScrollY s)"
    using assms by (simp add: renderFrame_scroll_def Let_def)
  have b: "0 \<le> max 0 (min (layout_y l - CANVAS_HEIGHT / 2) (height - CANVAS_HEIGHT))"
    "max 0 (min (layout_y l - CANVAS_HEIGHT / 2) (height - CANVAS_HEIGHT))
       \<le> height - CANVAS_HEIGHT"
    using assms(1) by simp_all
  note settle = renderFrame_scroll_settles[OF assms(1), of timings wordLayouts currentTime s]
  show ?thesis
    using t c b smooth_step_converges[of target current] settle by simp
qed

theorem scroll_target_clamped_and_reached_witness:
  "CANVAS_HEIGHT < totalTextHeight tall_layout \<and>
   targetScrollY (renderFrame_scroll [mk_timing ''a'' 0 1] tall_layout
     (totalTextHeight tall_layout) 0.5 \<lparr>currentScrollY = 0, targetScrollY = 0\<rparr>) = 988.8 \<and>
   (\<exists>n. \<forall>m\<ge>n. (smooth_step 988.8 ^^ m) 0 = 988.8)"
proof -
  have h1: "totalTextHeight tall_layout > CANVAS_HEIGHT"
    by (simp add: totalTextHeight_def tall_layout_def CANVAS_HEIGHT_def PADDING_def)
  have h2: "find (\<lambda>l. layout_originalIndex l = activeIndex 0.5 [mk_timing ''a'' 0 1]) tall_layout
              = Some (hd tall_layout)"
    by (simp add: tall_layout_def activeIndex_def findIndex_def mk_timing_def)
  show ?thesis
    using h1 scroll_target_clamped_and_reached[OF h1 h2,
        of "\<lparr>currentScrollY = 0, targetScrollY = 0\<rparr>" "988.8" 0]
    by (simp add: totalTextHeight_def tall_layout_def CANVAS_HEIGHT_def PADDING_def)
qed

section \<open>Layout of whitespace\<close>

lemma string_iterator_spaces: "string_iterator (replicate n 0x20) = replicate n [0x20]"
proof (induction n)
  case 0
  then show ?case by simp
next
  case (Suc n)
  then show ?case by (cases n) (simp_all add: isLeadSurrogate_def)
qed

lemma layout_char_space_fits:
  "PADDING \<le> x - 12 \<Longrightarrow> layout_char measure12 (x, y) [0x20] = (x - 12, y)"
  by (simp add: layout_char_def measure12_def Let_def)

lemma layout_spaces_fit:
  "PADDING \<le> x - 12 * real n \<Longrightarrow>
     foldl (layout_char measure12) (x, y) (replicate n [0x20]) = (x - 12 * real n, y)"
proof (induction n arbitrary: x)
  case 0
  then show ?case by simp
next
  case (Suc n)
  from Suc.prems have fit: "PADDING \<le> x - 12" and rest: "PADDING \<le> (x - 12) - 12 * real n"
    by (simp_all add: algebra_simps)
  show ?case
    using Suc.IH[OF rest] layout_char_space_fits[OF fit] by (simp add: algebra_simps)
qed

text \<open>
  Claim C7, as the code has it. In a whitespace element, a newline always wraps: the
  horizontal cursor goes back to the right edge and the vertical cursor advances by the
  line height. Any other character moves the horizontal cursor left by its measured
  width when it fits; when it would cross the left padding, the character wraps instead
  and the cursor stays at the right edge, without the character's width being taken.
  The element is laid out character by character, and leaves the word layouts alone.
\<close>

theorem whitespace_char_layout:
  assumes "char \<noteq> [0x0A]"
  shows "layout_char measureText (currentX, currentY) [0x0A] =
           (CANVAS_WIDTH - PADDING, currentY + LINE_HEIGHT) \<and>
         layout_char measureText (currentX, currentY) char =
           (if currentX - measureText char < PADDING
            then (CANVAS_WIDTH - PADDING, currentY + LINE_HEIGHT)
            else (currentX - measureText char, currentY)) \<and>
         layout_element measureText (wordLayouts, currentX, currentY) (ViewElementWhitespace content) =
           (wordLayouts,
            foldl (layout_char measureText) (currentX, currentY) (string_iterator content))"
  using assms by (simp add: layout_char_def Let_def)

theorem whitespace_char_layout_witness:
  "[0x20] \<noteq> [0x0A :: 16 word] \<and>
   layout_char measure12 (60, 108) [0x20] = (1860, 194.4) \<and>
   layout_char measure12 (60, 108) [0x0A] = (1860, 194.4) \<and>
   layout_char measure12 (1860, 108) [0x20] = (1848, 108)"
proof -
  have h: "[0x20] \<noteq> [0x0A :: 16 word]" by simp
  show ?thesis
    using h whitespace_char_layout[OF h, of measure12 60 108]
      whitespace_char_layout[OF h, of measure12 1860 108]
    by (simp add: measure12_def CANVAS_WIDTH_def PADDING_def LINE_HEIGHT_def FONT_SIZE_def)
qed

text \<open>
  The claim as stated fails: with 12 pixels per character, 150 spaces bring the cursor
  to the left padding at x = 60; the next space wraps and leaves the cursor at the right
  edge, x = 1860, where the rule "wrap first, then advance" would give 1848.
\<close>

theorem whitespace_overflow_counterexample:
  "layoutPass measure12 [ViewElementWhitespace (replicate 150 0x20)] = ([], 60, 108) \<and>
   layout_char measure12 (60, 108) [0x20] = (1860, 194.4) \<and>
   spec_layout_char measure12 (60, 108) [0x20] = (1848, 194.4) \<and>
   layoutPass measure12 [ViewElementWhitespace (replicate 151 0x20)] = ([], 1860, 194.4)"
proof -
  have fit: "PADDING \<le> (CANVAS_WIDTH - PADDING) - 12 * real (150::nat)"
    by (simp add: CANVAS_WIDTH_def PADDING_def)
  have run150: "foldl (layout_char measure12) (CANVAS_WIDTH - PADDING, PADDING + FONT_SIZE)
                  (replicate 150 [0x20]) = (60, 108)"
    using layout_spaces_fit[OF fit, of "PADDING + FONT_SIZE"]
    by (simp add: CANVAS_WIDTH_def PADDING_def FONT_SIZE_def)
  have a: "layoutPass measure12 [ViewElementWhitespace (replicate 150 0x20)] = ([], 60, 108)"
    using run150 by (simp add: layoutPass_def string_iterator_spaces)
  have b: "layout_char measure12 (60, 108) [0x20] = (1860, 194.4)"
    by (simp add: layout_char_def measure12_def CANVAS_WIDTH_def PADDING_def LINE_HEIGHT_def
        FONT_SIZE_def)
  have c: "spec_layout_char measure12 (60, 108) [0x20] = (1848, 194.4)"
    by (simp add: spec_layout_char_def measure12_def CANVAS_WIDTH_def PADDING_def LINE_HEIGHT_def
        FONT_SIZE_def)
  have "replicate 151 [0x20 :: 16 word] = replicate 150 [0x20] @ [[0x20]]"
    by (simp add: replicate_append_same flip: replicate_Suc)
  then have "foldl (layout_char measure12) (CANVAS_WIDTH - PADDING, PADDING + FONT_SIZE)
                  (replicate 151 [0x20]) = (1860, 194.4)"
    using run150 b by simp
  then have d: "layoutPass measure12 [ViewElementWhitespace (replicate 151 0x20)] = ([], 1860, 194.4)"
    by (simp add: layoutPass_def string_iterator_spaces)
  show ?thesis using a b c d by simp
qed

section \<open>The exporting flag\<close>

text \<open>
  What the handlers do with the flag. A start-export request that passes the guard sets
  the flag as its first effect; a request while the flag is set has no effect at all;
  and the recorder's stop handler, the branch without a canvas context and the handler
  of a rejected playback each leave the flag cleared.
\<close>

lemma exporting_flag_handlers:
  "(wordTimings s \<noteq> [] \<and> \<not> isExporting s \<longrightarrow>
      (\<exists>rest. handleExportVideo (Some currentTime) env s = SetIsExporting True # rest) \<and>
      isExporting (run (handleExportVideo (Some currentTime) SetupOk s) s)) \<and>
   (isExporting s2 \<longrightarrow>
      handleExportVideo audioRef env s2 = [] \<and>
      run (handleExportVideo audioRef env s2) s2 = s2) \<and>
   \<not> isExporting (run (recorder_onstop audioRef) s3) \<and>
   \<not> isExporting (run (exportProcess NoContext) s3) \<and>
   \<not> isExporting (run (play_catch recorderState) s3)"
proof -
  have stop: "isExporting (run (handleStop audioRef) t) = isExporting t" for t
    by (cases audioRef) (simp_all add: handleStop_def run_def)
  have a: "\<not> isExporting (run (recorder_onstop audioRef) s3)"
    using stop[of "foldl apply_effect s3
        [CancelAnimationFrame, DownloadVideo, SetIsExporting False, DisconnectAudioGraph]"]
    by (simp add: recorder_onstop_def run_def)
  have b: "\<not> isExporting (run (exportProcess NoContext) s3)"
    by (simp add: exportProcess_def run_def)
  have c: "\<not> isExporting (run (play_catch recorderState) s3)"
    by (simp add: play_catch_def run_def)
  have d: "isExporting s2 \<longrightarrow>
      handleExportVideo audioRef env s2 = [] \<and>
      run (handleExportVideo audioRef env s2) s2 = s2"
    by (cases audioRef) (simp_all add: handleExportVideo_def run_def)
  have e: "wordTimings s \<noteq> [] \<and> \<not> isExporting s \<longrightarrow>
      (\<exists>rest. handleExportVideo (Some currentTime) env s = SetIsExporting True # rest) \<and>
      isExporting (run (handleExportVideo (Some currentTime) SetupOk s) s)"
    by (simp add: handleExportVideo_def exportProcess_def run_def)
  show ?thesis using a b c d e by blast
qed

text \<open>
  Claim C8 says that the exporting flag is set before any asynchronous export work,
  that a start-export request while it is set is a no-op, and that it is cleared on
  every exit path of the export. The code does not clear it on every exit: when a
  set-up call of \<open>exportProcess\<close> throws, the request has set the flag, the exception
  is caught nowhere, no later statement runs, and the flag stays set; from then on
  every start-export request is a no-op, whatever the browser would do.
\<close>

theorem export_setup_throw_leaves_flag_set:
  "handleExportVideo (Some 0) SetupThrows idle_state =
     [SetIsExporting True, AudioPause, SetIsPlaying False, SetActiveWordIndex (-1),
      UncaughtError] \<and>
   isExporting stuck_state \<and>
   handleExportVideo (Some 0) SetupOk stuck_state = [] \<and>
   handleExportVideo (Some 0) NoContext stuck_state = [] \<and>
   run (handleExportVideo (Some 0) SetupOk stuck_state) stuck_state = stuck_state"
proof -
  have a: "handleExportVideo (Some 0) SetupThrows idle_state =
     [SetIsExporting True, AudioPause, SetIsPlaying False, SetActiveWordIndex (-1),
      UncaughtError]"
    by (simp add: handleExportVideo_def exportProcess_def idle_state_def)
  have b: "isExporting stuck_state"
    unfolding stuck_state_def a by (simp add: run_def)
  have c: "handleExportVideo (Some 0) env stuck_state = []" for env
    using b by (simp add: handleExportVideo_def)
  show ?thesis using a b c[of SetupOk] c[of NoContext] by (simp add: run_def)
qed

section \<open>Answers of the alignment model\<close>

lemma missing_fields_object:
  assumes "map_of kvs (utf16 ''word'') = None \<or> map_of kvs (utf16 ''start'') = None \<or>
           map_of kvs (utf16 ''end'') = None"
  shows "missing_fields (JObject kvs) \<noteq> Inr False"
  using assms
  by (auto simp: missing_fields_def split: sum.splits bool.splits)

lemma missing_fields_complete:
  assumes "map_of kvs (utf16 ''word'') \<noteq> None" "map_of kvs (utf16 ''start'') \<noteq> None"
    "map_of kvs (utf16 ''end'') \<noteq> None" "map_of kvs (utf16 ''hasOwnProperty'') = None"
  shows "missing_fields (JObject kvs) = Inr False"
  using assms by (simp add: missing_fields_def)

lemma generateWordTimings_first:
  "generateWordTimings (Parsed (JArray (t # ts))) =
     (if missing_fields t = Inr False then Inr (t # ts) else Inl GENERIC)"
  by (auto simp: generateWordTimings_def generateWordTimings_try_def split: sum.splits bool.splits)

text \<open>
  Claim C9, as the code has it. A rejected request, an answer that is not JSON, a value
  that is not an array, and an array whose first element is an object without the word,
  the start or the end field all fail with the one generic error, and no other error is
  ever thrown. Only the first element is looked at: when it has the three fields (and
  no own property \<open>hasOwnProperty\<close>), the array is returned as it is, whatever follows.
\<close>

theorem malformed_first_element_generic_error:
  "(map_of kvs (utf16 ''word'') = None \<or> map_of kvs (utf16 ''start'') = None \<or>
      map_of kvs (utf16 ''end'') = None \<longrightarrow>
      generateWordTimings (Parsed (JArray (JObject kvs # ts))) = Inl GENERIC) \<and>
   (map_of kvs2 (utf16 ''word'') \<noteq> None \<and> map_of kvs2 (utf16 ''start'') \<noteq> None \<and>
      map_of kvs2 (utf16 ''end'') \<noteq> None \<and> map_of kvs2 (utf16 ''hasOwnProperty'') = None \<longrightarrow>
      generateWordTimings (Parsed (JArray (JObject kvs2 # ts2))) = Inr (JObject kvs2 # ts2)) \<and>
   generateWordTimings Rejected = Inl GENERIC \<and>
   generateWordTimings Unparsable = Inl GENERIC \<and>
   generateWordTimings (Parsed JNull) = Inl GENERIC \<and>
   generateWordTimings (Parsed (JBool b)) = Inl GENERIC \<and>
   generateWordTimings (Parsed (JNumber x)) = Inl GENERIC \<and>
   generateWordTimings (Parsed (JString str)) = Inl GENERIC \<and>
   generateWordTimings (Parsed (JObject obj)) = Inl GENERIC \<and>
   (generateWordTimings response = Inl GENERIC \<or>
    (\<exists>timings. response = Parsed (JArray timings) \<and>
       generateWordTimings response = Inr timings))"
proof -
  have first: "generateWordTimings (Parsed (JArray (JObject kvs # ts))) = Inl GENERIC"
    if "map_of kvs (utf16 ''word'') = None \<or> map_of kvs (utf16 ''start'') = None \<or>
        map_of kvs (utf16 ''end'') = None"
    using missing_fields_object[OF that] by (simp add: generateWordTimings_first)
  have ok: "generateWordTimings (Parsed (JArray (JObject kvs2 # ts2))) = Inr (JObject kvs2 # ts2)"
    if "map_of kvs2 (utf16 ''word'') \<noteq> None \<and> map_of kvs2 (utf16 ''start'') \<noteq> None \<and>
        map_of kvs2 (utf16 ''end'') \<noteq> None \<and> map_of kvs2 (utf16 ''hasOwnProperty'') = None"
    using that missing_fields_complete[of kvs2] by (simp add: generateWordTimings_first)
  have other: "generateWordTimings Rejected = Inl GENERIC"
    "generateWordTimings Unparsable = Inl GENERIC"
    "generateWordTimings (Parsed JNull) = Inl GENERIC"
    "generateWordTimings (Parsed (JBool b)) = Inl GENERIC"
    "generateWordTimings (Parsed (JNumber x)) = Inl GENERIC"
    "generateWordTimings (Parsed (JString str)) = Inl GENERIC"
    "generateWordTimings (Parsed (JObject obj)) = Inl GENERIC"
    by (simp_all add: generateWordTimings_def generateWordTimings_try_def)
  have try_array: "\<exists>ts. response = Parsed (JArray ts) \<and> timings = ts"
    if "generateWordTimings_try response = Inr timings" for timings
    using that
    by (auto simp: generateWordTimings_try_def
        split: oracle_response.splits json.splits list.splits sum.splits bool.splits)
  have single: "generateWordTimings response = Inl GENERIC \<or>
          (\<exists>timings. response = Parsed (JArray timings) \<and>
             generateWordTimings response = Inr timings)"
  proof (cases "generateWordTimings_try response")
    case (Inl e)
    then show ?thesis by (simp add: generateWordTimings_def)
  next
    case (Inr timings)
    with try_array[OF Inr] show ?thesis by (simp add: generateWordTimings_def)
  qed
  show ?thesis using first ok other single by blast
qed

theorem malformed_first_element_generic_error_witness:
  "generateWordTimings (Parsed (JArray [JObject [(utf16 ''word'', JString (utf16 ''b''))],
      timing_json (utf16 ''a'') 0 1])) = Inl GENERIC \<and>
   generateWordTimings (Parsed (JArray [timing_json (utf16 ''a'') 0 1, JNull])) =
     Inr [timing_json (utf16 ''a'') 0 1, JNull]"
proof -
  have h: "map_of [(utf16 ''word'', JString (utf16 ''b''))] (utf16 ''word'') = None \<or>
           map_of [(utf16 ''word'', JString (utf16 ''b''))] (utf16 ''start'') = None \<or>
           map_of [(utf16 ''word'', JString (utf16 ''b''))] (utf16 ''end'') = None"
    by (simp add: utf16_def)
  let ?t = "[(utf16 ''word'', JString (utf16 ''a'')), (utf16 ''start'', JNumber 0),
             (utf16 ''end'', JNumber 1)]"
  have g: "map_of ?t (utf16 ''word'') \<noteq> None \<and> map_of ?t (utf16 ''start'') \<noteq> None \<and>
           map_of ?t (utf16 ''end'') \<noteq> None \<and> map_of ?t (utf16 ''hasOwnProperty'') = None"
    by (simp add: utf16_def)
  show ?thesis
    using h g
      malformed_first_element_generic_error[where kvs = "[(utf16 ''word'', JString (utf16 ''b''))]"
        and ts = "[timing_json (utf16 ''a'') 0 1]" and ?kvs2.0 = ?t and ?ts2.0 = "[JNull]"]
    unfolding timing_json_def by blast
qed

text \<open>
  The claim as stated fails: an array whose second element has no start and no end
  field is returned as the timing list.
\<close>

theorem later_element_unchecked_counterexample:
  "missing_fields (JObject [(utf16 ''word'', JString (utf16 ''b''))]) = Inr True \<and>
   generateWordTimings (Parsed (JArray [timing_json (utf16 ''a'') 0 1,
      JObject [(utf16 ''word'', JString (utf16 ''b''))]])) =
     Inr [timing_json (utf16 ''a'') 0 1, JObject [(utf16 ''word'', JString (utf16 ''b''))]]"
  by (simp add: generateWordTimings_def generateWordTimings_try_def missing_fields_def
      timing_json_def utf16_def)

end
